theory Spec2Isabelle
  imports Main
begin

text \<open>
  A model of \<open>src/components/family/FamilyTree.tsx\<close>: the tree builder
  (\<open>buildTree\<close> with its inner \<open>buildNode\<close>) as functions that pass the set
  \<open>processed\<close> along, and the handlers \<open>fetchMembers\<close>, \<open>deleteImageFromStorage\<close>
  and \<open>handleDeleteMember\<close> as functions from the component state and the backend to
  the new state, the new backend and the list of outside calls made.
\<close>

section \<open>Data model\<close>

text \<open>
  An optional string field of a JavaScript object: the field may be missing
  (\<open>undefined\<close>), hold \<open>null\<close>, or hold a string. The source relies on both
  truthiness (\<open>!member.parentId\<close>, \<open>member.spouseId ? ... : ...\<close>) and strict equality
  (\<open>m.parentId === member.id\<close>, \<open>userData?.uid === memberToDelete.createdBy\<close>).
\<close>

datatype jsstring = Undefined | Null | Str string

fun truthy :: "jsstring \<Rightarrow> bool" where
  "truthy Undefined = False"
| "truthy Null = False"
| "truthy (Str s) = (s \<noteq> [])"

text \<open>
  \<open>FamilyMember\<close> (imported from \<open>types/family\<close>): the fields that
  \<open>FamilyTree.tsx\<close> reads. The field \<open>id\<close> is called \<open>mid\<close> here, since
  \<open>id\<close> is the identity function of HOL.
\<close>

record FamilyMember =
  mid :: string
  parentId :: jsstring
  spouseId :: jsstring
  imageUrl :: jsstring
  createdBy :: jsstring

text \<open>\<open>TreeNode\<close>: the object literal \<open>{ member, children, spouse }\<close> of \<open>buildNode\<close>.\<close>

datatype TreeNode =
  TreeNode (member: FamilyMember) (children: "TreeNode list") (spouse: "FamilyMember option")

text \<open>The identity exposed by \<open>useAuth()\<close> as \<open>userData\<close>; it may be absent.\<close>

record UserData =
  uid :: jsstring
  isAdmin :: bool

text \<open>The React state of the component (the \<open>useState\<close> hooks).\<close>

record State =
  members :: "FamilyMember list"
  selectedMember :: "FamilyMember option"
  editingMember :: "FamilyMember option"
  showAddForm :: bool
  loading :: bool
  deletingMember :: "string option"
  deleteSuccess :: bool

text \<open>
  The remote collaborators: the documents of the Firestore collection
  \<open>familyMembers\<close>, the object paths held by the storage bucket, and whether the next
  call of each kind is rejected by the backend.
\<close>

record World =
  docs :: "FamilyMember list"
  objects :: "string set"
  getDocs_fails :: bool
  deleteDoc_fails :: bool
  deleteObject_fails :: bool

text \<open>
  The browser functions used by \<open>deleteImageFromStorage\<close>, taken as parameters:
  \<open>url_pathname s\<close> is \<open>new URL(s).pathname\<close> (\<open>None\<close> when the constructor
  throws), \<open>decodeURIComponent s\<close> is \<open>None\<close> when it throws \<open>URIError\<close>.
\<close>

record Platform =
  url_pathname :: "string \<Rightarrow> string option"
  decodeURIComponent :: "string \<Rightarrow> string option"

text \<open>What the component does to the outside, in program order.\<close>

datatype event =
    Alert string
  | ConsoleError string
  | GetDocs
  | DeleteObject string
  | DeleteDoc string
  | SetTimeout nat

section \<open>buildTree\<close>

text \<open>
  \<open>memberMap\<close>: \<open>members.forEach(member => memberMap.set(member.id, member))\<close>;
  a later member with the same id overwrites an earlier one.
\<close>

fun memberMap :: "FamilyMember list \<Rightarrow> (string \<rightharpoonup> FamilyMember)" where
  "memberMap [] = Map.empty"
| "memberMap (m # ms) =
     (\<lambda>k. case memberMap ms k of
             Some m' \<Rightarrow> Some m'
           | None \<Rightarrow> (if k = mid m then Some m else None))"

text \<open>\<open>member.spouseId ? memberMap.get(member.spouseId) : undefined\<close>\<close>

fun resolveSpouse :: "FamilyMember list \<Rightarrow> FamilyMember \<Rightarrow> FamilyMember option" where
  "resolveSpouse ms m =
     (case spouseId m of
        Str s \<Rightarrow> (if s \<noteq> [] then memberMap ms s else None)
      | _ \<Rightarrow> None)"

text \<open>
  \<open>buildNode\<close> reads and updates the closure variable \<open>processed\<close>; the model passes
  it in and returns it. \<open>members.filter(...)\<close> runs to the end before \<open>.map(...)\<close>
  starts, so the candidate children are chosen with the set \<open>processed\<close> as it is
  when \<open>buildNode\<close> is entered; \<open>buildChildren\<close> is the \<open>.map\<close> callback run over
  the candidates from left to right.
\<close>

function buildNode :: "FamilyMember list \<Rightarrow> string set \<Rightarrow> FamilyMember \<Rightarrow> TreeNode \<times> string set"
  and buildChildren :: "FamilyMember list \<Rightarrow> string set \<Rightarrow> FamilyMember list \<Rightarrow> TreeNode list \<times> string set"
where
  "buildNode ms processed m =
     (case buildChildren ms processed
             (filter (\<lambda>c. parentId c = Str (mid m) \<and> mid c \<notin> processed) ms) of
        (cs, processed') \<Rightarrow> (TreeNode m cs (resolveSpouse ms m), processed'))"
| "buildChildren ms processed [] = ([], processed)"
| "buildChildren ms processed (child # rest) =
     (case buildNode ms (insert (mid child) processed) child of
        (n, processed1) \<Rightarrow>
          (case buildChildren ms processed1 rest of
             (ns, processed2) \<Rightarrow> (n # ns, processed2)))"
  by pat_completeness auto

text \<open>
  The measure of the termination proof: the number of member ids that are not yet
  processed (counting the pending candidates as unprocessed), then the length of the
  pending list.
\<close>

fun build_measure ::
  "(FamilyMember list \<times> string set \<times> FamilyMember) + (FamilyMember list \<times> string set \<times> FamilyMember list)
     \<Rightarrow> nat \<times> nat" where
  "build_measure (Inl (ms, P, m)) = (card (mid ` set ms - P), Suc (length ms))"
| "build_measure (Inr (ms, P, cs)) = (card ((mid ` set ms - P) \<union> mid ` set cs), length cs)"

text \<open>
  The \<open>forEach\<close> over the root candidates:
  \<open>processed.add(rootMember.id); roots.push(buildNode(rootMember))\<close>.
\<close>

fun buildRoots :: "FamilyMember list \<Rightarrow> string set \<Rightarrow> FamilyMember list \<Rightarrow> TreeNode list \<times> string set" where
  "buildRoots ms processed [] = ([], processed)"
| "buildRoots ms processed (rootMember # rest) =
     (case buildNode ms (insert (mid rootMember) processed) rootMember of
        (n, processed1) \<Rightarrow>
          (case buildRoots ms processed1 rest of
             (ns, processed2) \<Rightarrow> (n # ns, processed2)))"

text \<open>
  \<open>buildTree\<close>: the root candidates are filtered first, with \<open>processed\<close> still
  empty, then built in order.
\<close>

definition buildTree :: "FamilyMember list \<Rightarrow> TreeNode list" where
  "buildTree ms =
     fst (buildRoots ms {} (filter (\<lambda>m. \<not> truthy (parentId m) \<and> mid m \<notin> {}) ms))"

text \<open>The members at the primary positions of a tree and of a forest, in pre-order.\<close>

fun tree_members :: "TreeNode \<Rightarrow> FamilyMember list"
  and forest_members :: "TreeNode list \<Rightarrow> FamilyMember list" where
  "tree_members (TreeNode m cs s) = m # forest_members cs"
| "forest_members [] = []"
| "forest_members (t # ts) = tree_members t @ forest_members ts"

text \<open>
  A member is rooted when following \<open>parentId\<close> from it reaches a member without
  \<open>parentId\<close>: it is such a member itself, or its \<open>parentId\<close> is the id of a rooted member.
\<close>

inductive rooted :: "FamilyMember list \<Rightarrow> FamilyMember \<Rightarrow> bool" for ms where
  rooted_root: "m \<in> set ms \<Longrightarrow> \<not> truthy (parentId m) \<Longrightarrow> rooted ms m"
| rooted_child: "rooted ms p \<Longrightarrow> c \<in> set ms \<Longrightarrow> parentId c = Str (mid p) \<Longrightarrow> rooted ms c"

text \<open>
  For the proofs about \<open>buildTree\<close>. \<open>pending ms P cs\<close>: the candidates \<open>cs\<close> are
  members with different ids, none processed, and none names an unprocessed member as its
  parent. \<open>placed_from ms P S ps P'\<close>: starting from the candidates \<open>S\<close> with the set
  \<open>P\<close>, the builder has placed the members \<open>ps\<close> and ended with the set \<open>P'\<close>; the
  placed members are new, have different ids, are candidates or children of placed
  members, and every child of a placed member is processed.
\<close>

definition pending :: "FamilyMember list \<Rightarrow> string set \<Rightarrow> FamilyMember list \<Rightarrow> bool" where
  "pending ms P cs =
     (set cs \<subseteq> set ms \<and> distinct (map mid cs) \<and> mid ` set cs \<inter> P = {}
      \<and> (\<forall>c\<in>set cs. \<forall>q\<in>set ms. parentId c = Str (mid q) \<longrightarrow> mid q \<in> P))"

definition placed_from ::
  "FamilyMember list \<Rightarrow> string set \<Rightarrow> FamilyMember set \<Rightarrow> FamilyMember list \<Rightarrow> string set \<Rightarrow> bool" where
  "placed_from ms P S ps P' =
     (P' = P \<union> mid ` set ps \<and> distinct (map mid ps) \<and> mid ` set ps \<inter> P = {}
      \<and> S \<subseteq> set ps
      \<and> (\<forall>x\<in>set ps. x \<in> set ms \<and> (x \<in> S \<or> (\<exists>q\<in>set ps. parentId x = Str (mid q))))
      \<and> (\<forall>c\<in>set ms. (\<exists>q\<in>set ps. parentId c = Str (mid q)) \<longrightarrow> mid c \<in> P')
      \<and> ((\<forall>s\<in>S. rooted ms s) \<longrightarrow> (\<forall>x\<in>set ps. rooted ms x)))"

section \<open>fetchMembers\<close>

text \<open>
  \<open>getDocs(query(collection(db, 'familyMembers')))\<close>: the documents, or a rejection.
  Each document is turned into a member by \<open>{ id: doc.id, ...doc.data() }\<close>; the
  model keeps the documents as members already.
\<close>

definition getDocs :: "World \<Rightarrow> string + FamilyMember list" where
  "getDocs w = (if getDocs_fails w then Inl ''getDocs rejected'' else Inr (docs w))"

text \<open>
  The result of a handler is \<open>Inr\<close> of what it leaves behind when it returns, and
  \<open>Inl\<close> of the error when an exception leaves it.
\<close>

definition fetchMembers :: "string option \<Rightarrow> World \<Rightarrow> State \<Rightarrow> string + (State \<times> event list)" where
  "fetchMembers currentUser w st =
     (case currentUser of
        None \<Rightarrow> Inr (st\<lparr>loading := False\<rparr>, [])
      | Some u \<Rightarrow>
          (case getDocs w of
             Inr membersData \<Rightarrow> Inr (st\<lparr>members := membersData, loading := False\<rparr>, [GetDocs])
           | Inl error \<Rightarrow>
               Inr (st\<lparr>loading := False\<rparr>, [GetDocs, ConsoleError ''Error fetching family members:''])))"

section \<open>deleteImageFromStorage\<close>

fun startsWith :: "string \<Rightarrow> string \<Rightarrow> bool" where
  "startsWith [] s = True"
| "startsWith (p # ps) [] = False"
| "startsWith (p # ps) (c # cs) = (p = c \<and> startsWith ps cs)"

text \<open>\<open>s.includes(sub)\<close>, named \<open>includes_str\<close> since \<open>includes\<close> is a keyword.\<close>

fun includes_str :: "string \<Rightarrow> string \<Rightarrow> bool" where
  "includes_str [] sub = (sub = [])"
| "includes_str (c # cs) sub = (startsWith sub (c # cs) \<or> includes_str cs sub)"

text \<open>
  The regular expression \<open>/\/o\/(.+)\?/\<close>. \<open>groupAfter\<close> is given the text that
  follows an occurrence of \<open>/o/\<close>: the dot matches every character but a line
  terminator and \<open>+\<close> is greedy, so group 1 is the longest non-empty prefix without a
  line terminator that is followed by a question mark. \<open>pathMatch\<close> tries the
  occurrences of \<open>/o/\<close> from the left and returns group 1 of the first match.
\<close>

definition lineTerminator :: "char \<Rightarrow> bool" where
  "lineTerminator c = (c = CHR 0x0A \<or> c = CHR 0x0D)"

definition groupAfter :: "string \<Rightarrow> string option" where
  "groupAfter s =
     (let run = takeWhile (\<lambda>c. \<not> lineTerminator c) s;
          qs = filter (\<lambda>j. run ! j = CHR ''?'') [1..<length run]
      in if qs = [] then None else Some (take (last qs) run))"

fun pathMatch :: "string \<Rightarrow> string option" where
  "pathMatch [] = None"
| "pathMatch (c # cs) =
     (case (if startsWith ''/o/'' (c # cs) then groupAfter (drop 3 (c # cs)) else None) of
        Some g \<Rightarrow> Some g
      | None \<Rightarrow> pathMatch cs)"

text \<open>\<open>deleteObject(ref(storage, imagePath))\<close>: removes the object, or is rejected.\<close>

definition deleteObject :: "World \<Rightarrow> string \<Rightarrow> string + World" where
  "deleteObject w imagePath =
     (if deleteObject_fails w then Inl ''deleteObject rejected''
      else Inr (w\<lparr>objects := objects w - {imagePath}\<rparr>))"

definition deleteImageFromStorage :: "Platform \<Rightarrow> World \<Rightarrow> string \<Rightarrow> string + (World \<times> event list)" where
  "deleteImageFromStorage pf w url =
     (if url = [] \<or> \<not> includes_str url ''firebase'' then Inr (w, [])
      else
        (case url_pathname pf url of
           None \<Rightarrow> Inr (w, [ConsoleError ''Error deleting image from storage:''])
         | Some pathname \<Rightarrow>
             (case pathMatch pathname of
                None \<Rightarrow> Inr (w, [])
              | Some g \<Rightarrow>
                  (case decodeURIComponent pf g of
                     None \<Rightarrow> Inr (w, [ConsoleError ''Error deleting image from storage:''])
                   | Some imagePath \<Rightarrow>
                       (case deleteObject w imagePath of
                          Inr w' \<Rightarrow> Inr (w', [DeleteObject imagePath])
                        | Inl error \<Rightarrow>
                            Inr (w, [DeleteObject imagePath,
                                     ConsoleError ''Error deleting image from storage:'']))))))"

text \<open>
  The part of the URL Standard that decides \<open>pathname\<close> for an absolute URL
  \<open>scheme://authority/path?query#fragment\<close>: the authority ends at the first
  \<open>/\<close>, \<open>?\<close> or \<open>#\<close>, the path ends at the first \<open>?\<close> or \<open>#\<close>, and an
  empty path reads as \<open>/\<close>. A string without \<open>://\<close> after a non-empty scheme is
  rejected, as the constructor rejects a relative URL given no base. Percent-encoding and
  the removal of dot segments, which the standard also applies to the path, are left out:
  neither puts a question mark into it.
\<close>

fun afterScheme :: "string \<Rightarrow> string option" where
  "afterScheme [] = None"
| "afterScheme (c # cs) =
     (if startsWith ''://'' (c # cs) then Some (drop 3 (c # cs))
      else if c = CHR ''/'' \<or> c = CHR ''?'' \<or> c = CHR ''#'' then None
      else afterScheme cs)"

definition pathOf :: "string \<Rightarrow> string" where
  "pathOf r =
     (let p = takeWhile (\<lambda>c. c \<noteq> CHR ''?'' \<and> c \<noteq> CHR ''#'')
                (dropWhile (\<lambda>c. c \<noteq> CHR ''/'' \<and> c \<noteq> CHR ''?'' \<and> c \<noteq> CHR ''#'') r)
      in if p = [] then ''/'' else p)"

definition hier_pathname :: "string \<Rightarrow> string option" where
  "hier_pathname s =
     (if startsWith ''://'' s then None
      else (case afterScheme s of None \<Rightarrow> None | Some r \<Rightarrow> Some (pathOf r)))"

text \<open>A browser: the pathname above, and any \<open>decodeURIComponent\<close>.\<close>

definition browser :: "(string \<Rightarrow> string option) \<Rightarrow> Platform" where
  "browser decode = \<lparr>url_pathname = hier_pathname, decodeURIComponent = decode\<rparr>"

section \<open>handleDeleteMember\<close>

text \<open>\<open>userData?.isAdmin || userData?.uid === memberToDelete.createdBy\<close>\<close>

definition canDelete :: "UserData option \<Rightarrow> FamilyMember \<Rightarrow> bool" where
  "canDelete userData memberToDelete =
     ((case userData of None \<Rightarrow> False | Some u \<Rightarrow> isAdmin u)
      \<or> (case userData of None \<Rightarrow> Undefined | Some u \<Rightarrow> uid u) = createdBy memberToDelete)"

text \<open>\<open>deleteDoc(doc(db, 'familyMembers', memberId))\<close>\<close>

definition deleteDoc :: "World \<Rightarrow> string \<Rightarrow> string + World" where
  "deleteDoc w memberId =
     (if deleteDoc_fails w then Inl ''deleteDoc rejected''
      else Inr (w\<lparr>docs := filter (\<lambda>d. mid d \<noteq> memberId) (docs w)\<rparr>))"

definition permissionMsg :: string where
  "permissionMsg = ''You do not have permission to delete this member.''"

definition childrenMsg :: string where
  "childrenMsg = ''Cannot delete this member as they have children in the family tree. Please remove or reassign their children first.''"

definition failedMsg :: string where
  "failedMsg = ''Failed to delete family member. Please try again.''"

text \<open>
  The body of the \<open>try\<close> block up to the record deletion: the image step. The
  spouse lookup that follows it in the source has an empty body and no effect.
\<close>

definition imageStep :: "Platform \<Rightarrow> World \<Rightarrow> FamilyMember \<Rightarrow> string + (World \<times> event list)" where
  "imageStep pf w memberToDelete =
     (case imageUrl memberToDelete of
        Str url \<Rightarrow> (if url \<noteq> [] then deleteImageFromStorage pf w url else Inr (w, []))
      | _ \<Rightarrow> Inr (w, []))"

text \<open>
  \<open>handleDeleteMember\<close>. \<open>setDeletingMember(memberId)\<close> before the \<open>try\<close> block is
  undone by \<open>setDeletingMember(null)\<close> in its \<open>finally\<close> block, so every path through
  the block ends with \<open>deletingMember\<close> cleared. The timer callback (refetch, then
  \<open>setDeleteSuccess(false)\<close>) is only scheduled here: \<open>SetTimeout 1500\<close>.
\<close>

definition handleDeleteMember ::
  "Platform \<Rightarrow> UserData option \<Rightarrow> string \<Rightarrow> State \<Rightarrow> World \<Rightarrow> string + (State \<times> World \<times> event list)" where
  "handleDeleteMember pf userData memberId st w =
     (case find (\<lambda>m. mid m = memberId) (members st) of
        None \<Rightarrow> Inr (st, w, [])
      | Some memberToDelete \<Rightarrow>
          if \<not> canDelete userData memberToDelete then Inr (st, w, [Alert permissionMsg])
          else if list_ex (\<lambda>m. parentId m = Str memberId) (members st)
          then Inr (st, w, [Alert childrenMsg])
          else
            (case imageStep pf w memberToDelete of
               Inl error \<Rightarrow>
                 Inr (st\<lparr>deletingMember := None\<rparr>, w,
                      [ConsoleError ''Error deleting family member:'', Alert failedMsg])
             | Inr (w1, ev1) \<Rightarrow>
                 (case deleteDoc w1 memberId of
                    Inr w2 \<Rightarrow>
                      Inr (st\<lparr>deleteSuccess := True, selectedMember := None, deletingMember := None\<rparr>,
                           w2, ev1 @ [DeleteDoc memberId, SetTimeout 1500])
                  | Inl error \<Rightarrow>
                      Inr (st\<lparr>deletingMember := None\<rparr>, w1,
                           ev1 @ [DeleteDoc memberId,
                                  ConsoleError ''Error deleting family member:'',
                                  Alert failedMsg]))))"

section \<open>The scenario of the specification\<close>

definition memberA :: FamilyMember where
  "memberA = \<lparr>mid = ''A'', parentId = Null, spouseId = Undefined, imageUrl = Undefined, createdBy = Undefined\<rparr>"

definition memberB :: FamilyMember where
  "memberB = \<lparr>mid = ''B'', parentId = Str ''A'', spouseId = Undefined, imageUrl = Undefined, createdBy = Undefined\<rparr>"

definition memberC :: FamilyMember where
  "memberC = \<lparr>mid = ''C'', parentId = Str ''A'', spouseId = Str ''D'', imageUrl = Undefined, createdBy = Undefined\<rparr>"

definition memberD :: FamilyMember where
  "memberD = \<lparr>mid = ''D'', parentId = Null, spouseId = Undefined, imageUrl = Undefined, createdBy = Undefined\<rparr>"

definition scenario :: "FamilyMember list" where
  "scenario = [memberA, memberB, memberC, memberD]"

section \<open>Example states\<close>

definition st0 :: State where
  "st0 = \<lparr>members = scenario, selectedMember = None, editingMember = None, showAddForm = False,
          loading = False, deletingMember = None, deleteSuccess = False\<rparr>"

text \<open>A backend that holds the scenario and rejects the next \<open>getDocs\<close>.\<close>

definition w0 :: World where
  "w0 = \<lparr>docs = scenario, objects = {}, getDocs_fails = True, deleteDoc_fails = False,
         deleteObject_fails = False\<rparr>"

text \<open>
  A couple: \<open>M\<close>, created by \<open>u1\<close>, with a picture in the storage bucket, and \<open>N\<close>; each
  names the other as spouse and neither has a parent or a child.
\<close>

definition memberM :: FamilyMember where
  "memberM = \<lparr>mid = ''M'', parentId = Undefined, spouseId = Str ''N'',
       imageUrl = Str ''https://firebasestorage.googleapis.com/v0/b/app/o/images%2Fm.jpg?alt=media'',
       createdBy = Str ''u1''\<rparr>"

definition memberN :: FamilyMember where
  "memberN = \<lparr>mid = ''N'', parentId = Undefined, spouseId = Str ''M'', imageUrl = Undefined,
       createdBy = Undefined\<rparr>"

definition st1 :: State where
  "st1 = \<lparr>members = [memberM, memberN], selectedMember = Some memberM, editingMember = None,
          showAddForm = False, loading = False, deletingMember = None, deleteSuccess = False\<rparr>"

definition w1 :: World where
  "w1 = \<lparr>docs = [memberM, memberN], objects = {''images/m.jpg''}, getDocs_fails = False,
         deleteDoc_fails = False, deleteObject_fails = False\<rparr>"

definition admin :: UserData where
  "admin = \<lparr>uid = Str ''u0'', isAdmin = True\<rparr>"

definition visitor :: UserData where
  "visitor = \<lparr>uid = Str ''u2'', isAdmin = False\<rparr>"

text \<open>
  Two members that name each other as parent, and a member whose parent does not exist.
\<close>

definition memberP :: FamilyMember where
  "memberP = \<lparr>mid = ''P'', parentId = Str ''Q'', spouseId = Undefined, imageUrl = Undefined,
       createdBy = Undefined\<rparr>"

definition memberQ :: FamilyMember where
  "memberQ = \<lparr>mid = ''Q'', parentId = Str ''P'', spouseId = Undefined, imageUrl = Undefined,
       createdBy = Undefined\<rparr>"

definition orphan :: FamilyMember where
  "orphan = \<lparr>mid = ''X'', parentId = Str ''ghost'', spouseId = Undefined, imageUrl = Undefined,
       createdBy = Undefined\<rparr>"

definition mixed :: "FamilyMember list" where
  "mixed = [memberP, memberA, orphan, memberB, memberQ]"

text \<open>A member whose id is the empty string, and a member whose \<open>parentId\<close> is empty.\<close>

definition memberE :: FamilyMember where
  "memberE = \<lparr>mid = [], parentId = Undefined, spouseId = Undefined, imageUrl = Undefined,
       createdBy = Undefined\<rparr>"

definition memberR :: FamilyMember where
  "memberR = \<lparr>mid = ''R'', parentId = Str [], spouseId = Undefined, imageUrl = Undefined,
       createdBy = Undefined\<rparr>"

section \<open>Termination of the tree builder\<close>

lemma processed_mono_dom:
  "buildNode_buildChildren_dom (Inl (ms, P, m)) \<Longrightarrow> P \<subseteq> snd (buildNode ms P m)"
  "buildNode_buildChildren_dom (Inr (ms, P, cs)) \<Longrightarrow> P \<subseteq> snd (buildChildren ms P cs)"
proof (induction ms P m and ms P cs rule: buildNode_buildChildren.pinduct)
  case (1 ms processed m)
  then show ?case by (auto simp add: buildNode.psimps split: prod.splits)
next
  case (2 ms processed)
  then show ?case by (simp add: buildChildren.psimps)
next
  case (3 ms processed child rest)
  obtain n P1 where e1: "buildNode ms (insert (mid child) processed) child = (n, P1)"
    by (cases "buildNode ms (insert (mid child) processed) child")
  obtain ns P2 where e2: "buildChildren ms P1 rest = (ns, P2)"
    by (cases "buildChildren ms P1 rest")
  from 3(2) e1 have "insert (mid child) processed \<subseteq> P1" by simp
  moreover from 3(3)[of n P1] e1 e2 have "P1 \<subseteq> P2" by simp
  ultimately show ?case using 3(1) e1 e2 by (auto simp add: buildChildren.psimps)
qed

lemma build_all_dom: "All buildNode_buildChildren_dom"
proof (relation "inv_image (less_than <*lex*> less_than) build_measure")
  show "wf (inv_image (less_than <*lex*> less_than) build_measure)"
    by (intro wf_inv_image wf_lex_prod wf_less_than)
next
  fix ms :: "FamilyMember list" and processed and m :: FamilyMember
  let ?cs = "filter (\<lambda>c. parentId c = Str (mid m) \<and> mid c \<notin> processed) ms"
  have "mid ` set ?cs \<subseteq> mid ` set ms - processed" by auto
  then have "(mid ` set ms - processed) \<union> mid ` set ?cs = mid ` set ms - processed" by blast
  moreover have "length ?cs \<le> length ms" by simp
  ultimately show "(Inr (ms, processed, ?cs), Inl (ms, processed, m))
     \<in> inv_image (less_than <*lex*> less_than) build_measure" by (simp add: less_Suc_eq_le)
next
  fix ms :: "FamilyMember list" and processed and child :: FamilyMember and rest
  have "mid ` set ms - insert (mid child) processed
          \<subset> (mid ` set ms - processed) \<union> mid ` set (child # rest)"
    by auto
  then have "card (mid ` set ms - insert (mid child) processed)
          < card ((mid ` set ms - processed) \<union> mid ` set (child # rest))"
    by (intro psubset_card_mono) auto
  then show "(Inl (ms, insert (mid child) processed, child), Inr (ms, processed, child # rest))
     \<in> inv_image (less_than <*lex*> less_than) build_measure" by simp
next
  fix ms :: "FamilyMember list" and processed and child :: FamilyMember and rest x y
  assume e: "(x, y) = buildNode ms (insert (mid child) processed) child"
    and d: "buildNode_buildChildren_dom (Inl (ms, insert (mid child) processed, child))"
  from processed_mono_dom(1)[OF d] e have "insert (mid child) processed \<subseteq> y"
    by (metis snd_conv)
  then have "(mid ` set ms - y) \<union> mid ` set rest
          \<subseteq> (mid ` set ms - processed) \<union> mid ` set (child # rest)"
    by auto
  then have "card ((mid ` set ms - y) \<union> mid ` set rest)
          \<le> card ((mid ` set ms - processed) \<union> mid ` set (child # rest))"
    by (intro card_mono) auto
  then show "(Inr (ms, y, rest), Inr (ms, processed, child # rest))
     \<in> inv_image (less_than <*lex*> less_than) build_measure" by auto
qed

termination buildNode
  using build_all_dom by blast

declare buildNode.simps [simp del]

text \<open>
  C8. \<open>buildNode\<close> and the \<open>.map\<close> over its candidates terminate on every list of
  members, every set \<open>processed\<close> and every member or candidate list: each argument
  lies in the accessible part of the call relation of the two functions (so no chain of
  nested calls is infinite, whatever cycles the \<open>parentId\<close> fields form), and
  \<open>processed\<close> only grows. \<open>buildTree\<close> runs \<open>buildNode\<close> once for each root
  candidate.
\<close>

theorem buildTree_terminates:
  "buildNode_buildChildren_dom (Inl (ms, processed, m))
   \<and> buildNode_buildChildren_dom (Inr (ms, processed, cs))
   \<and> processed \<subseteq> snd (buildNode ms processed m)
   \<and> processed \<subseteq> snd (buildChildren ms processed cs)"
  using build_all_dom processed_mono_dom by blast

lemmas scenario_defs = scenario_def memberA_def memberB_def memberC_def memberD_def

section \<open>The scenario\<close>

text \<open>
  C4 (as amended). On the scenario \<open>[A, B (child of A), C (child of A, spouse D), D]\<close>
  \<open>buildTree\<close> returns two roots: \<open>A\<close>, with the children \<open>B\<close> and \<open>C\<close> in this
  order and \<open>C\<close>'s spouse resolved to \<open>D\<close>, and after it \<open>D\<close> as a root of its own.
\<close>

theorem buildTree_scenario:
  "buildTree scenario =
     [TreeNode memberA [TreeNode memberB [] None, TreeNode memberC [] (Some memberD)] None,
      TreeNode memberD [] None]"
  by (simp add: buildTree_def scenario_defs buildNode.simps)

text \<open>
  C4 as stated fails: the forest of the scenario does not have one root, and \<open>D\<close> is
  among its roots.
\<close>

theorem buildTree_scenario_counterexample:
  "length (buildTree scenario) \<noteq> 1 \<and> memberD \<in> set (map member (buildTree scenario))"
  by (simp add: buildTree_def scenario_defs buildNode.simps)

section \<open>Fetching\<close>

text \<open>
  C3 (as amended). When the backend rejects \<open>getDocs\<close>, \<open>fetchMembers\<close> returns
  normally, logs the error, clears \<open>loading\<close> and leaves the member collection as it
  was before the call.
\<close>

theorem fetchMembers_failure:
  "getDocs_fails w \<Longrightarrow>
     fetchMembers (Some u) w st =
       Inr (st\<lparr>loading := False\<rparr>, [GetDocs, ConsoleError ''Error fetching family members:''])
     \<and> members (st\<lparr>loading := False\<rparr>) = members st"
  by (simp add: fetchMembers_def getDocs_def)

theorem fetchMembers_failure_witness:
  "getDocs_fails w0 \<and>
   fetchMembers (Some ''u'') w0 st0 =
       Inr (st0\<lparr>loading := False\<rparr>, [GetDocs, ConsoleError ''Error fetching family members:''])
   \<and> members (st0\<lparr>loading := False\<rparr>) = scenario"
  using fetchMembers_failure [of w0 "''u''" st0] by (simp add: w0_def st0_def)

text \<open>
  C3 as stated fails: with four members in memory, a failing fetch returns a state whose
  collection is not empty.
\<close>

theorem fetchMembers_failure_counterexample:
  "getDocs_fails w0 \<and>
   (case fetchMembers (Some ''u'') w0 st0 of
      Inl e \<Rightarrow> False
    | Inr (st', ev) \<Rightarrow> members st' \<noteq> [])"
  by (simp add: fetchMembers_def getDocs_def w0_def st0_def scenario_def)

section \<open>Deleting: the two preconditions\<close>

lemma find_member:
  assumes "m \<in> set ms" "mid m = k"
  obtains m' where "find (\<lambda>x. mid x = k) ms = Some m'" "mid m' = k"
proof (cases "find (\<lambda>x. mid x = k) ms")
  case None
  with assms show ?thesis by (auto simp: find_None_iff)
next
  case (Some a)
  then have "mid a = k" by (auto simp: find_Some_iff)
  with Some that show ?thesis by blast
qed

text \<open>
  C5. If the collection holds a member with id \<open>memberId\<close> and a member whose
  \<open>parentId\<close> is \<open>memberId\<close>, then for every identity \<open>handleDeleteMember\<close> ends
  with one alert (the permission alert or the children alert) and nothing else: no
  \<open>DeleteObject\<close>, no \<open>DeleteDoc\<close>, the state and the backend as they were.
\<close>

theorem delete_refused_with_children:
  assumes "m \<in> set (members st)" and "mid m = memberId"
    and "c \<in> set (members st)" and "parentId c = Str memberId"
  shows "handleDeleteMember pf userData memberId st w = Inr (st, w, [Alert permissionMsg])
       \<or> handleDeleteMember pf userData memberId st w = Inr (st, w, [Alert childrenMsg])"
proof -
  from assms(1,2) obtain m' where f: "find (\<lambda>x. mid x = memberId) (members st) = Some m'"
    by (rule find_member)
  from assms(3,4) have ch: "list_ex (\<lambda>m. parentId m = Str memberId) (members st)"
    by (auto simp: list_ex_iff)
  show ?thesis by (simp add: handleDeleteMember_def f ch)
qed

theorem delete_refused_with_children_witness:
  "memberA \<in> set (members st0) \<and> memberB \<in> set (members st0) \<and> parentId memberB = Str (mid memberA)
   \<and> handleDeleteMember (browser Some) (Some admin) ''A'' st0 w0
       = Inr (st0, w0, [Alert childrenMsg])"
  using delete_refused_with_children [of memberA st0 "''A''" memberB "browser Some" "Some admin" w0]
  by (simp add: st0_def scenario_defs handleDeleteMember_def canDelete_def admin_def)

text \<open>
  C6. When the collection holds the target, \<open>handleDeleteMember\<close> gets past the
  permission check exactly when the identity is an administrator or its \<open>uid\<close> is
  strictly equal to the target's \<open>createdBy\<close>; otherwise it ends with the permission
  alert alone, the state and the backend as they were.
\<close>

theorem delete_authorization:
  assumes "find (\<lambda>m. mid m = memberId) (members st) = Some m"
  shows "(handleDeleteMember pf userData memberId st w \<noteq> Inr (st, w, [Alert permissionMsg]))
     \<longleftrightarrow> ((case userData of None \<Rightarrow> False | Some u \<Rightarrow> isAdmin u)
          \<or> (case userData of None \<Rightarrow> Undefined | Some u \<Rightarrow> uid u) = createdBy m)"
  using assms
  by (auto simp add: handleDeleteMember_def canDelete_def permissionMsg_def childrenMsg_def
      split: sum.splits prod.splits)

theorem delete_authorization_witness:
  "find (\<lambda>m. mid m = ''M'') (members st1) = Some memberM
   \<and> handleDeleteMember (browser Some) (Some visitor) ''M'' st1 w1 = Inr (st1, w1, [Alert permissionMsg])
   \<and> handleDeleteMember (browser Some) (Some admin) ''M'' st1 w1 \<noteq> Inr (st1, w1, [Alert permissionMsg])
   \<and> handleDeleteMember (browser Some) (Some \<lparr>uid = Str ''u1'', isAdmin = False\<rparr>) ''M'' st1 w1
         \<noteq> Inr (st1, w1, [Alert permissionMsg])"
  using delete_authorization [of "''M''" st1 memberM "browser Some" "Some visitor" w1]
    delete_authorization [of "''M''" st1 memberM "browser Some" "Some admin" w1]
    delete_authorization [of "''M''" st1 memberM "browser Some" "Some \<lparr>uid = Str ''u1'', isAdmin = False\<rparr>" w1]
  by (simp add: st1_def memberM_def visitor_def admin_def)

section \<open>Deleting: the image and the record\<close>

lemma groupAfter_needs_question: "CHR ''?'' \<notin> set s \<Longrightarrow> groupAfter s = None"
proof -
  assume a: "CHR ''?'' \<notin> set s"
  let ?run = "takeWhile (\<lambda>c. \<not> lineTerminator c) s"
  have "CHR ''?'' \<notin> set ?run" using a by (auto dest: set_takeWhileD)
  then have "filter (\<lambda>j. ?run ! j = CHR ''?'') [1..<length ?run] = []"
    by (auto simp: filter_empty_conv) (metis nth_mem)
  then show ?thesis by (simp add: groupAfter_def Let_def)
qed

lemma pathMatch_needs_question: "CHR ''?'' \<notin> set s \<Longrightarrow> pathMatch s = None"
proof (induction s)
  case Nil
  then show ?case by simp
next
  case (Cons c cs)
  have "CHR ''?'' \<notin> set (drop 3 (c # cs))"
    using Cons.prems by (meson in_set_dropD)
  then have "groupAfter (drop 3 (c # cs)) = None" by (rule groupAfter_needs_question)
  moreover have "pathMatch cs = None" using Cons by simp
  ultimately show ?case by (simp only: pathMatch.simps if_cancel option.case)
qed

lemma pathOf_no_question: "CHR ''?'' \<notin> set (pathOf r)"
  by (auto simp: pathOf_def Let_def dest: set_takeWhileD)

lemma hier_pathname_no_question: "hier_pathname s = Some p \<Longrightarrow> CHR ''?'' \<notin> set p"
  using pathOf_no_question by (auto simp: hier_pathname_def split: if_splits option.splits)

lemma deleteImage_returns:
  "\<exists>w' ev. deleteImageFromStorage pf w url = Inr (w', ev) \<and> docs w' = docs w
      \<and> deleteDoc_fails w' = deleteDoc_fails w
      \<and> (\<forall>k. DeleteDoc k \<notin> set ev) \<and> (\<forall>s. Alert s \<notin> set ev)"
  by (simp add: deleteImageFromStorage_def deleteObject_def split: option.splits sum.splits)

lemma imageStep_returns:
  "\<exists>w' ev. imageStep pf w m = Inr (w', ev) \<and> docs w' = docs w
      \<and> deleteDoc_fails w' = deleteDoc_fails w
      \<and> (\<forall>k. DeleteDoc k \<notin> set ev) \<and> (\<forall>s. Alert s \<notin> set ev)"
  using deleteImage_returns[of pf w] by (simp add: imageStep_def split: jsstring.splits)

text \<open>
  The regular expression is matched against \<open>url.pathname\<close>. Whatever the URL
  parser is, if its pathnames hold no question mark (the URL Standard ends the path at
  the first \<open>?\<close>, which starts the query), the match fails and \<open>deleteObject\<close> is
  never reached.
\<close>

lemma deleteImage_never_reaches_deleteObject:
  assumes "\<And>p. url_pathname pf url = Some p \<Longrightarrow> CHR ''?'' \<notin> set p"
  shows "\<exists>ev. deleteImageFromStorage pf w url = Inr (w, ev) \<and> (\<forall>p. DeleteObject p \<notin> set ev)"
proof (cases "url_pathname pf url")
  case None
  then show ?thesis by (simp add: deleteImageFromStorage_def)
next
  case (Some p)
  with assms have "pathMatch p = None" by (simp add: pathMatch_needs_question)
  with Some show ?thesis by (simp add: deleteImageFromStorage_def)
qed

text \<open>
  Whatever the image step does, the record deletion follows it: with both preconditions
  passed, the events are those of the image step (which hold no \<open>DeleteDoc\<close>), then
  \<open>DeleteDoc memberId\<close>, then events that hold no \<open>DeleteObject\<close>; and the record is
  removed exactly when the backend accepts \<open>deleteDoc\<close>, whether or not it rejects
  \<open>deleteObject\<close>.
\<close>

lemma delete_image_then_record:
  assumes "find (\<lambda>m. mid m = memberId) (members st) = Some m"
    and "canDelete userData m"
    and "\<not> list_ex (\<lambda>c. parentId c = Str memberId) (members st)"
  shows "\<exists>st' w' w1 ev1 rest.
           imageStep pf w m = Inr (w1, ev1)
         \<and> handleDeleteMember pf userData memberId st w = Inr (st', w', ev1 @ DeleteDoc memberId # rest)
         \<and> (\<forall>k. DeleteDoc k \<notin> set ev1) \<and> (\<forall>p. DeleteObject p \<notin> set rest)
         \<and> docs w' = (if deleteDoc_fails w then docs w else filter (\<lambda>d. mid d \<noteq> memberId) (docs w))"
proof -
  obtain w1 ev1 where i: "imageStep pf w m = Inr (w1, ev1)" "docs w1 = docs w"
    "deleteDoc_fails w1 = deleteDoc_fails w" "\<forall>k. DeleteDoc k \<notin> set ev1"
    using imageStep_returns by blast
  show ?thesis
  proof (cases "deleteDoc_fails w")
    case True
    with assms i show ?thesis by (simp add: handleDeleteMember_def deleteDoc_def)
  next
    case False
    with assms i show ?thesis by (simp add: handleDeleteMember_def deleteDoc_def)
  qed
qed

lemma includes_firebase:
  "includes_str ''https://firebasestorage.googleapis.com/v0/b/app/o/images%2Fm.jpg?alt=media'' ''firebase''"
  by simp

lemma pathname_of_picture:
  "hier_pathname ''https://firebasestorage.googleapis.com/v0/b/app/o/images%2Fm.jpg?alt=media''
     = Some ''/v0/b/app/o/images%2Fm.jpg''"
  by (simp add: hier_pathname_def pathOf_def)

lemma pathMatch_of_picture: "pathMatch ''/v0/b/app/o/images%2Fm.jpg'' = None"
  by (rule pathMatch_needs_question) simp

lemma delete_M_by_admin:
  "handleDeleteMember (browser decode) (Some admin) ''M'' st1 w1 =
     Inr (st1\<lparr>deleteSuccess := True, selectedMember := None, deletingMember := None\<rparr>,
          w1\<lparr>docs := [memberN]\<rparr>,
          [DeleteDoc ''M'', SetTimeout 1500])"
proof -
  have i: "imageStep (browser decode) w1 memberM = Inr (w1, [])"
    by (simp add: imageStep_def memberM_def deleteImageFromStorage_def browser_def
        includes_firebase pathname_of_picture pathMatch_of_picture del: includes_str.simps pathMatch.simps)
  have f: "find (\<lambda>m. mid m = ''M'') (members st1) = Some memberM"
    by (simp add: st1_def memberM_def)
  have c: "\<not> list_ex (\<lambda>m. parentId m = Str ''M'') (members st1)"
    by (simp add: st1_def memberM_def memberN_def)
  have a: "canDelete (Some admin) memberM" by (simp add: canDelete_def admin_def)
  have d: "deleteDoc w1 ''M'' = Inr (w1\<lparr>docs := [memberN]\<rparr>)"
    by (simp add: deleteDoc_def w1_def memberM_def memberN_def)
  show ?thesis by (simp add: handleDeleteMember_def f c a i d)
qed

text \<open>
  C7, on the code. \<open>M\<close> passes both preconditions and its \<open>imageUrl\<close> is a download
  URL of the storage bucket (it contains \<open>firebase\<close>). Deleting \<open>M\<close> as an
  administrator removes the record, but no \<open>DeleteObject\<close> is among the events and the
  picture is still in the bucket: the pathname \<open>/v0/b/app/o/images%2Fm.jpg\<close> has no
  question mark for \<open>/\/o\/(.+)\?/\<close> to match.
\<close>

theorem delete_with_image_skips_asset:
  "\<exists>st' w' ev. handleDeleteMember (browser decode) (Some admin) ''M'' st1 w1 = Inr (st', w', ev)
      \<and> DeleteDoc ''M'' \<in> set ev \<and> (\<forall>p. DeleteObject p \<notin> set ev)
      \<and> ''images/m.jpg'' \<in> objects w' \<and> docs w' = [memberN]"
proof -
  have "''images/m.jpg'' \<in> objects (w1\<lparr>docs := [memberN]\<rparr>)" by (simp add: w1_def)
  then show ?thesis by (simp add: delete_M_by_admin)
qed

section \<open>Deleting: what is left alone\<close>

text \<open>
  C9. Whatever \<open>handleDeleteMember\<close> does, every stored record with another id than
  \<open>memberId\<close> is left as it is (the spouse's record with its \<open>spouseId\<close> among them),
  the in-memory collection is not changed, and the only record deletion attempted is that
  of \<open>memberId\<close>. The witness deletes \<open>M\<close>: afterwards \<open>N\<close> is stored unchanged, its
  \<open>spouseId\<close> still \<open>M\<close>, and no record \<open>M\<close> exists.
\<close>

theorem delete_leaves_other_records:
  assumes "handleDeleteMember pf userData memberId st w = Inr (st', w', ev)"
  shows "filter (\<lambda>d. mid d \<noteq> memberId) (docs w') = filter (\<lambda>d. mid d \<noteq> memberId) (docs w)
       \<and> members st' = members st
       \<and> (\<forall>k. DeleteDoc k \<in> set ev \<longrightarrow> k = memberId)"
proof (cases "find (\<lambda>m. mid m = memberId) (members st)")
  case None
  with assms show ?thesis by (simp add: handleDeleteMember_def)
next
  case (Some m)
  obtain w1 ev1 where i: "imageStep pf w m = Inr (w1, ev1)"
    "docs w1 = docs w" "\<forall>k. DeleteDoc k \<notin> set ev1"
    using imageStep_returns by blast
  show ?thesis
  proof (cases "\<not> canDelete userData m \<or> list_ex (\<lambda>m. parentId m = Str memberId) (members st)")
    case True
    with assms Some show ?thesis by (auto simp add: handleDeleteMember_def split: if_splits)
  next
    case False
    show ?thesis
    proof (cases "deleteDoc_fails w1")
      case True
      with assms Some False i show ?thesis
        by (auto simp add: handleDeleteMember_def deleteDoc_def)
    next
      case f: False
      with assms Some False i show ?thesis
        by (auto simp add: handleDeleteMember_def deleteDoc_def)
    qed
  qed
qed

theorem delete_leaves_other_records_witness:
  "handleDeleteMember (browser Some) (Some admin) ''M'' st1 w1 =
     Inr (st1\<lparr>deleteSuccess := True, selectedMember := None, deletingMember := None\<rparr>,
          w1\<lparr>docs := [memberN]\<rparr>, [DeleteDoc ''M'', SetTimeout 1500])
   \<and> filter (\<lambda>d. mid d \<noteq> ''M'') (docs (w1\<lparr>docs := [memberN]\<rparr>)) = filter (\<lambda>d. mid d \<noteq> ''M'') (docs w1)
   \<and> spouseId memberN = Str ''M'' \<and> ''M'' \<notin> mid ` set (docs (w1\<lparr>docs := [memberN]\<rparr>))"
  using delete_leaves_other_records [OF delete_M_by_admin [of Some]]
  by (auto simp add: delete_M_by_admin memberN_def)

section \<open>Deleting: the absent identity\<close>

text \<open>
  C10. With no \<open>userData\<close> at all, \<open>userData?.uid\<close> is \<open>undefined\<close>, which is
  strictly equal to a missing \<open>createdBy\<close>: the permission check passes, and when the
  target has no children the handler goes on to \<open>deleteDoc\<close>.
\<close>

theorem absent_identity_passes:
  assumes "find (\<lambda>m. mid m = memberId) (members st) = Some m"
    and "createdBy m = Undefined"
    and "\<not> list_ex (\<lambda>c. parentId c = Str memberId) (members st)"
  shows "canDelete None m \<and>
    (\<exists>st' w' ev. handleDeleteMember pf None memberId st w = Inr (st', w', ev)
        \<and> DeleteDoc memberId \<in> set ev \<and> Alert permissionMsg \<notin> set ev)"
proof -
  obtain w1 ev1 where i: "imageStep pf w m = Inr (w1, ev1)" "\<forall>s. Alert s \<notin> set ev1"
    using imageStep_returns by blast
  have c: "canDelete None m" using assms(2) by (simp add: canDelete_def)
  show ?thesis
  proof (cases "deleteDoc_fails w1")
    case True
    with assms c i show ?thesis
      by (simp add: handleDeleteMember_def deleteDoc_def failedMsg_def permissionMsg_def)
  next
    case False
    with assms c i show ?thesis
      by (simp add: handleDeleteMember_def deleteDoc_def failedMsg_def permissionMsg_def)
  qed
qed

theorem absent_identity_passes_witness:
  "find (\<lambda>m. mid m = ''N'') (members st1) = Some memberN \<and> createdBy memberN = Undefined
   \<and> \<not> list_ex (\<lambda>c. parentId c = Str ''N'') (members st1)
   \<and> canDelete None memberN
   \<and> (\<exists>st' w' ev. handleDeleteMember (browser Some) None ''N'' st1 w1 = Inr (st', w', ev)
        \<and> DeleteDoc ''N'' \<in> set ev \<and> Alert permissionMsg \<notin> set ev)"
  using absent_identity_passes [of "''N''" st1 memberN "browser Some" w1]
  by (simp add: st1_def memberM_def memberN_def)

section \<open>What the tree builder places\<close>

lemma same_member: "distinct (map mid ms) \<Longrightarrow> x \<in> set ms \<Longrightarrow> y \<in> set ms \<Longrightarrow> mid x = mid y \<Longrightarrow> x = y"
  by (meson distinct_map inj_on_def)

lemma placed_from_nil: "placed_from ms P {} [] P"
  by (simp add: placed_from_def)

lemma pending_candidates:
  assumes "mid m \<in> P"
    and "distinct (map mid ms)"
  shows "pending ms P (filter (\<lambda>c. parentId c = Str (mid m) \<and> mid c \<notin> P) ms)"
  unfolding pending_def using assms by (auto simp: distinct_map_filter)

lemma pending_rest:
  assumes d: "distinct (map mid ms)"
    and p: "pending ms P (c # cs)"
    and n: "placed_from ms P {c} ps1 P1"
  shows "pending ms P1 cs"
proof -
  have P1: "P1 = P \<union> mid ` set ps1" using n by (simp add: placed_from_def)
  have "mid c' \<notin> mid ` set ps1" if c': "c' \<in> set cs" for c'
  proof
    assume "mid c' \<in> mid ` set ps1"
    then obtain x where x: "x \<in> set ps1" "mid x = mid c'" by auto
    from n x(1) have xm: "x \<in> set ms" by (simp add: placed_from_def)
    from p c' have cm: "c' \<in> set ms" by (auto simp: pending_def)
    from same_member[OF d xm cm x(2)] have e: "x = c'" .
    from n x(1) have "x = c \<or> (\<exists>q\<in>set ps1. parentId x = Str (mid q))"
      by (auto simp: placed_from_def)
    then show False
    proof
      assume "x = c"
      with e c' p show False by (auto simp: pending_def)
    next
      assume "\<exists>q\<in>set ps1. parentId x = Str (mid q)"
      then obtain q where q: "q \<in> set ps1" "parentId x = Str (mid q)" by blast
      from n q(1) have qm: "q \<in> set ms" by (simp add: placed_from_def)
      from p c' e q(2) qm have "mid q \<in> P" by (auto simp: pending_def)
      moreover from n q(1) have "mid q \<notin> P" by (auto simp: placed_from_def)
      ultimately show False by blast
    qed
  qed
  then have "mid ` set cs \<inter> mid ` set ps1 = {}" by blast
  with p P1 show ?thesis unfolding pending_def by auto
qed

lemma placed_fromD:
  assumes "placed_from ms P S ps P'"
  shows "P' = P \<union> mid ` set ps" and "distinct (map mid ps)" and "mid ` set ps \<inter> P = {}"
    and "S \<subseteq> set ps"
    and "\<forall>x\<in>set ps. x \<in> set ms \<and> (x \<in> S \<or> (\<exists>q\<in>set ps. parentId x = Str (mid q)))"
    and "\<forall>c\<in>set ms. (\<exists>q\<in>set ps. parentId c = Str (mid q)) \<longrightarrow> mid c \<in> P'"
    and "(\<forall>s\<in>S. rooted ms s) \<longrightarrow> (\<forall>x\<in>set ps. rooted ms x)"
proof -
  from assms have c: "P' = P \<union> mid ` set ps \<and> distinct (map mid ps) \<and> mid ` set ps \<inter> P = {}
      \<and> S \<subseteq> set ps
      \<and> (\<forall>x\<in>set ps. x \<in> set ms \<and> (x \<in> S \<or> (\<exists>q\<in>set ps. parentId x = Str (mid q))))
      \<and> (\<forall>c\<in>set ms. (\<exists>q\<in>set ps. parentId c = Str (mid q)) \<longrightarrow> mid c \<in> P')
      \<and> ((\<forall>s\<in>S. rooted ms s) \<longrightarrow> (\<forall>x\<in>set ps. rooted ms x))"
    unfolding placed_from_def .
  show "P' = P \<union> mid ` set ps" using c by (elim conjE)
  show "distinct (map mid ps)" using c by (elim conjE)
  show "mid ` set ps \<inter> P = {}" using c by (elim conjE)
  show "S \<subseteq> set ps" using c by (elim conjE)
  show "\<forall>x\<in>set ps. x \<in> set ms \<and> (x \<in> S \<or> (\<exists>q\<in>set ps. parentId x = Str (mid q)))"
    using c by (elim conjE)
  show "\<forall>c\<in>set ms. (\<exists>q\<in>set ps. parentId c = Str (mid q)) \<longrightarrow> mid c \<in> P'"
    using c by (elim conjE)
  show "(\<forall>s\<in>S. rooted ms s) \<longrightarrow> (\<forall>x\<in>set ps. rooted ms x)" using c by (elim conjE)
qed

lemma placed_from_cons:
  assumes a: "placed_from ms P {c} ps1 P1"
    and b: "placed_from ms P1 (set cs) ps2 P2"
  shows "placed_from ms P (set (c # cs)) (ps1 @ ps2) P2"
proof -
  note a1 = placed_fromD(1)[OF a] and a2 = placed_fromD(2)[OF a] and a3 = placed_fromD(3)[OF a]
    and a4 = placed_fromD(4)[OF a] and a5 = placed_fromD(5)[OF a] and a6 = placed_fromD(6)[OF a]
    and a7 = placed_fromD(7)[OF a]
  note b1 = placed_fromD(1)[OF b] and b2 = placed_fromD(2)[OF b] and b3 = placed_fromD(3)[OF b]
    and b4 = placed_fromD(4)[OF b] and b5 = placed_fromD(5)[OF b] and b6 = placed_fromD(6)[OF b]
    and b7 = placed_fromD(7)[OF b]
  have c1: "P2 = P \<union> mid ` set (ps1 @ ps2)"
    unfolding b1 a1 by (simp add: image_Un Un_assoc)
  have d: "mid ` set ps1 \<inter> mid ` set ps2 = {}" using b3 unfolding a1 by blast
  have c2: "distinct (map mid (ps1 @ ps2))" using a2 b2 d by simp
  have "mid ` set ps2 \<inter> P = {}" using b3 unfolding a1 by blast
  with a3 have c3: "mid ` set (ps1 @ ps2) \<inter> P = {}" by (simp add: image_Un Int_Un_distrib2)
  have c4: "set (c # cs) \<subseteq> set (ps1 @ ps2)" using a4 b4 by auto
  have c5: "\<forall>x\<in>set (ps1 @ ps2). x \<in> set ms \<and> (x \<in> set (c # cs) \<or> (\<exists>q\<in>set (ps1 @ ps2). parentId x = Str (mid q)))"
  proof
    fix x assume "x \<in> set (ps1 @ ps2)"
    then consider "x \<in> set ps1" | "x \<in> set ps2" by auto
    then show "x \<in> set ms \<and> (x \<in> set (c # cs) \<or> (\<exists>q\<in>set (ps1 @ ps2). parentId x = Str (mid q)))"
    proof cases
      case 1
      with a5 have "x \<in> set ms" and "x \<in> {c} \<or> (\<exists>q\<in>set ps1. parentId x = Str (mid q))" by blast+
      then show ?thesis by auto
    next
      case 2
      with b5 have "x \<in> set ms" and "x \<in> set cs \<or> (\<exists>q\<in>set ps2. parentId x = Str (mid q))" by blast+
      then show ?thesis by auto
    qed
  qed
  have c6: "\<forall>k\<in>set ms. (\<exists>q\<in>set (ps1 @ ps2). parentId k = Str (mid q)) \<longrightarrow> mid k \<in> P2"
  proof (intro ballI impI)
    fix k assume k: "k \<in> set ms" and "\<exists>q\<in>set (ps1 @ ps2). parentId k = Str (mid q)"
    then consider "\<exists>q\<in>set ps1. parentId k = Str (mid q)" | "\<exists>q\<in>set ps2. parentId k = Str (mid q)"
      by auto
    then show "mid k \<in> P2"
    proof cases
      case 1
      with a6 k have "mid k \<in> P1" by blast
      then show ?thesis unfolding b1 by blast
    next
      case 2
      with b6 k show ?thesis by blast
    qed
  qed
  have c7: "(\<forall>s\<in>set (c # cs). rooted ms s) \<longrightarrow> (\<forall>x\<in>set (ps1 @ ps2). rooted ms x)"
  proof (intro impI ballI)
    fix x
    assume r: "\<forall>s\<in>set (c # cs). rooted ms s" and x: "x \<in> set (ps1 @ ps2)"
    from r have rc: "\<forall>s\<in>{c}. rooted ms s" and rcs: "\<forall>s\<in>set cs. rooted ms s"
      by (simp_all only: list.set ball_simps insert_iff) blast+
    from x consider "x \<in> set ps1" | "x \<in> set ps2" by auto
    then show "rooted ms x"
    proof cases
      case 1
      with a7 rc show ?thesis by blast
    next
      case 2
      with b7 rcs show ?thesis by blast
    qed
  qed
  show ?thesis unfolding placed_from_def by (intro conjI c1 c2 c3 c4 c5 c6 c7)
qed

lemma placed_from_node:
  assumes m: "m \<in> set ms" and fresh: "mid m \<notin> P0"
    and b: "placed_from ms (insert (mid m) P0)
              (set (filter (\<lambda>c. parentId c = Str (mid m) \<and> mid c \<notin> insert (mid m) P0) ms)) ps P'"
  shows "placed_from ms P0 {m} (m # ps) P'"
proof -
  let ?cs = "filter (\<lambda>c. parentId c = Str (mid m) \<and> mid c \<notin> insert (mid m) P0) ms"
  note b1 = placed_fromD(1)[OF b] and b2 = placed_fromD(2)[OF b] and b3 = placed_fromD(3)[OF b]
    and b4 = placed_fromD(4)[OF b] and b5 = placed_fromD(5)[OF b] and b6 = placed_fromD(6)[OF b]
    and b7 = placed_fromD(7)[OF b]
  have c1: "P' = P0 \<union> mid ` set (m # ps)" unfolding b1 by simp
  have n: "mid m \<notin> mid ` set ps" using b3 by blast
  have c2: "distinct (map mid (m # ps))" using b2 n by simp
  have "mid ` set ps \<inter> P0 = {}" using b3 by blast
  with fresh have c3: "mid ` set (m # ps) \<inter> P0 = {}" by simp
  have c4: "{m} \<subseteq> set (m # ps)" by simp
  have c5: "\<forall>x\<in>set (m # ps). x \<in> set ms \<and> (x \<in> {m} \<or> (\<exists>q\<in>set (m # ps). parentId x = Str (mid q)))"
  proof
    fix x assume "x \<in> set (m # ps)"
    then consider "x = m" | "x \<in> set ps" by auto
    then show "x \<in> set ms \<and> (x \<in> {m} \<or> (\<exists>q\<in>set (m # ps). parentId x = Str (mid q)))"
    proof cases
      case 1
      with m show ?thesis by simp
    next
      case 2
      with b5 have xm: "x \<in> set ms" and "x \<in> set ?cs \<or> (\<exists>q\<in>set ps. parentId x = Str (mid q))"
        by blast+
      then have "\<exists>q\<in>set (m # ps). parentId x = Str (mid q)" by auto
      with xm show ?thesis by blast
    qed
  qed
  have c6: "\<forall>k\<in>set ms. (\<exists>q\<in>set (m # ps). parentId k = Str (mid q)) \<longrightarrow> mid k \<in> P'"
  proof (intro ballI impI)
    fix k assume k: "k \<in> set ms" and "\<exists>q\<in>set (m # ps). parentId k = Str (mid q)"
    then consider "parentId k = Str (mid m)" | "\<exists>q\<in>set ps. parentId k = Str (mid q)"
      by auto
    then show "mid k \<in> P'"
    proof cases
      case 1
      show ?thesis
      proof (cases "mid k \<in> insert (mid m) P0")
        case True
        then show ?thesis unfolding b1 by blast
      next
        case False
        with 1 k have "k \<in> set ?cs" by simp
        with b4 have "k \<in> set ps" by blast
        then show ?thesis unfolding b1 by blast
      qed
    next
      case 2
      with b6 k show ?thesis by blast
    qed
  qed
  have c7: "(\<forall>s\<in>{m}. rooted ms s) \<longrightarrow> (\<forall>x\<in>set (m # ps). rooted ms x)"
  proof (intro impI ballI)
    fix x
    assume "\<forall>s\<in>{m}. rooted ms s" and x: "x \<in> set (m # ps)"
    then have r: "rooted ms m" by blast
    have "\<forall>s\<in>set ?cs. rooted ms s"
    proof
      fix s assume "s \<in> set ?cs"
      then have "s \<in> set ms" and "parentId s = Str (mid m)" by simp_all
      with r show "rooted ms s" by (rule rooted_child)
    qed
    with b7 have "\<forall>x\<in>set ps. rooted ms x" by blast
    with r x show "rooted ms x" by (metis set_ConsD)
  qed
  show ?thesis unfolding placed_from_def by (intro conjI c1 c2 c3 c4 c5 c6 c7)
qed

lemma member_buildNode: "member (fst (buildNode ms P m)) = m"
  by (simp add: buildNode.simps split: prod.splits)

lemma tree_members_buildNode:
  "tree_members (fst (buildNode ms P m)) =
     m # forest_members (fst (buildChildren ms P (filter (\<lambda>c. parentId c = Str (mid m) \<and> mid c \<notin> P) ms)))"
  by (simp add: buildNode.simps split: prod.splits)

lemma snd_buildNode:
  "snd (buildNode ms P m) =
     snd (buildChildren ms P (filter (\<lambda>c. parentId c = Str (mid m) \<and> mid c \<notin> P) ms))"
  by (simp add: buildNode.simps split: prod.splits)

lemma build_places:
  "distinct (map mid ms) \<Longrightarrow> m \<in> set ms \<Longrightarrow> mid m \<in> P \<Longrightarrow>
     placed_from ms (P - {mid m}) {m} (tree_members (fst (buildNode ms P m))) (snd (buildNode ms P m))"
  "distinct (map mid ms) \<Longrightarrow> pending ms P cs \<Longrightarrow>
     placed_from ms P (set cs) (forest_members (fst (buildChildren ms P cs))) (snd (buildChildren ms P cs))
     \<and> map member (fst (buildChildren ms P cs)) = cs"
proof (induction ms P m and ms P cs rule: buildNode_buildChildren.induct)
  case (1 ms processed m)
  let ?cs = "filter (\<lambda>c. parentId c = Str (mid m) \<and> mid c \<notin> processed) ms"
  have e: "insert (mid m) (processed - {mid m}) = processed" using 1(4) by blast
  have "pending ms processed ?cs" using 1(4) 1(2) by (rule pending_candidates)
  with 1(1)[OF 1(2)]
  have "placed_from ms processed (set ?cs) (forest_members (fst (buildChildren ms processed ?cs)))
          (snd (buildChildren ms processed ?cs))" by blast
  then have "placed_from ms (insert (mid m) (processed - {mid m}))
      (set (filter (\<lambda>c. parentId c = Str (mid m) \<and> mid c \<notin> insert (mid m) (processed - {mid m})) ms))
      (forest_members (fst (buildChildren ms processed ?cs))) (snd (buildChildren ms processed ?cs))"
    unfolding e .
  with 1(3) have "placed_from ms (processed - {mid m}) {m}
      (m # forest_members (fst (buildChildren ms processed ?cs))) (snd (buildChildren ms processed ?cs))"
    by (intro placed_from_node) auto
  then show ?case by (simp only: tree_members_buildNode snd_buildNode)
next
  case (2 ms processed)
  then show ?case by (simp add: placed_from_nil)
next
  case (3 ms processed child rest)
  obtain n P1 where e1: "buildNode ms (insert (mid child) processed) child = (n, P1)"
    by (cases "buildNode ms (insert (mid child) processed) child")
  obtain ns P2 where e2: "buildChildren ms P1 rest = (ns, P2)"
    by (cases "buildChildren ms P1 rest")
  have res: "buildChildren ms processed (child # rest) = (n # ns, P2)"
    by (simp add: e1 e2)
  from 3(4) have cm: "child \<in> set ms" and cf: "mid child \<notin> processed"
    by (auto simp: pending_def)
  have e: "insert (mid child) processed - {mid child} = processed" using cf by blast
  from 3(1)[OF 3(3) cm] have "placed_from ms (insert (mid child) processed - {mid child}) {child}
      (tree_members n) P1" by (simp add: e1)
  then have a: "placed_from ms processed {child} (tree_members n) P1" unfolding e .
  have p: "pending ms P1 rest" using 3(3) 3(4) a by (rule pending_rest)
  from 3(2)[OF e1[symmetric] 3(3) p]
  have b: "placed_from ms P1 (set rest) (forest_members ns) P2" and mm: "map member ns = rest"
    by (simp_all add: e2)
  have "member n = child" using member_buildNode[of ms "insert (mid child) processed" child]
    by (simp add: e1)
  moreover from a b have "placed_from ms processed (set (child # rest)) (tree_members n @ forest_members ns) P2"
    by (rule placed_from_cons)
  ultimately show ?case using mm unfolding res by simp
qed

lemma buildRoots_eq: "buildRoots ms P rs = buildChildren ms P rs"
  by (induction rs arbitrary: P) (simp_all split: prod.splits)

lemma buildTree_eq:
  "buildTree ms = fst (buildChildren ms {} (filter (\<lambda>m. \<not> truthy (parentId m)) ms))"
  by (simp add: buildTree_def buildRoots_eq)

lemma members_of_children: "map member (fst (buildChildren ms P cs)) = cs"
proof (induction cs arbitrary: P)
  case Nil
  then show ?case by simp
next
  case (Cons c cs)
  obtain n P1 where e1: "buildNode ms (insert (mid c) P) c = (n, P1)"
    by (cases "buildNode ms (insert (mid c) P) c")
  obtain ns P2 where e2: "buildChildren ms P1 cs = (ns, P2)"
    by (cases "buildChildren ms P1 cs")
  have "member n = c" using member_buildNode[of ms "insert (mid c) P" c] by (simp add: e1)
  moreover have "map member ns = cs" using Cons[of P1] by (simp add: e2)
  ultimately show ?case by (simp add: e1 e2)
qed

lemma pending_roots:
  assumes "distinct (map mid ms)" and "\<forall>m\<in>set ms. mid m \<noteq> []"
  shows "pending ms {} (filter (\<lambda>m. \<not> truthy (parentId m)) ms)"
proof -
  have "mid q \<in> {}" if "c \<in> set ms" "\<not> truthy (parentId c)" "q \<in> set ms" "parentId c = Str (mid q)" for c q
    using that assms(2) by auto
  then show ?thesis unfolding pending_def using assms(1) by (auto simp: distinct_map_filter)
qed

text \<open>
  C1 (as amended). For members with different, non-empty ids, no member is placed twice
  in the forest of \<open>buildTree\<close>, and the members placed are exactly the rooted ones: those
  without \<open>parentId\<close> and their descendants. A member whose chain of parents ends in a
  cycle or in an id that no member has is not placed.
\<close>

theorem buildTree_places_rooted_once:
  assumes d: "distinct (map mid ms)" and ne: "\<forall>m\<in>set ms. mid m \<noteq> []"
  shows "distinct (map mid (forest_members (buildTree ms)))
       \<and> set (forest_members (buildTree ms)) = {m \<in> set ms. rooted ms m}"
proof -
  let ?rs = "filter (\<lambda>m. \<not> truthy (parentId m)) ms"
  let ?ps = "forest_members (buildTree ms)"
  let ?P' = "snd (buildChildren ms {} ?rs)"
  have pl: "placed_from ms {} (set ?rs) ?ps ?P'"
    using build_places(2)[OF d pending_roots[OF d ne]] by (simp add: buildTree_eq)
  note p1 = placed_fromD(1)[OF pl] and p2 = placed_fromD(2)[OF pl] and p4 = placed_fromD(4)[OF pl]
    and p5 = placed_fromD(5)[OF pl] and p6 = placed_fromD(6)[OF pl] and p7 = placed_fromD(7)[OF pl]
  have "\<forall>s\<in>set ?rs. rooted ms s"
  proof
    fix s assume "s \<in> set ?rs"
    then have "s \<in> set ms" and "\<not> truthy (parentId s)" by simp_all
    then show "rooted ms s" by (rule rooted_root)
  qed
  with p7 have r: "\<forall>x\<in>set ?ps. rooted ms x" by blast
  have sub: "set ?ps \<subseteq> {m \<in> set ms. rooted ms m}" using p5 r by blast
  have sup: "x \<in> set ?ps" if "rooted ms x" for x
    using that
  proof (induction rule: rooted.induct)
    case (rooted_root m)
    then have "m \<in> set ?rs" by simp
    with p4 show ?case by blast
  next
    case (rooted_child p c)
    from p6 rooted_child(2,3,4) have "mid c \<in> ?P'" by blast
    then have "mid c \<in> mid ` set ?ps" unfolding p1 by blast
    then obtain y where y: "y \<in> set ?ps" "mid y = mid c" by auto
    from p5 y(1) have "y \<in> set ms" by blast
    from same_member[OF d this rooted_child(2) y(2)] y(1) show ?case by simp
  qed
  from sub sup have "set ?ps = {m \<in> set ms. rooted ms m}" by blast
  with p2 show ?thesis by blast
qed

lemmas example_defs = mixed_def memberA_def memberB_def memberP_def memberQ_def orphan_def

lemma forest_of_mixed: "forest_members (buildTree mixed) = [memberA, memberB]"
  by (simp add: buildTree_def example_defs buildNode.simps)

text \<open>
  The witness: of \<open>P\<close> and \<open>Q\<close> (each the other's parent), \<open>A\<close>, \<open>X\<close> (its parent
  does not exist) and \<open>B\<close> (child of \<open>A\<close>), the forest holds \<open>A\<close> and \<open>B\<close>.
\<close>

theorem buildTree_places_rooted_once_witness:
  "distinct (map mid mixed) \<and> [] \<notin> set (map mid mixed)
   \<and> distinct (map mid (forest_members (buildTree mixed)))
   \<and> {m \<in> set mixed. rooted mixed m} = {memberA, memberB}"
proof -
  have h1: "distinct (map mid mixed)" by (simp add: example_defs)
  have h2: "\<forall>m\<in>set mixed. mid m \<noteq> []" by (simp add: example_defs)
  have h3: "[] \<notin> set (map mid mixed)" by (simp add: example_defs)
  from buildTree_places_rooted_once [OF h1 h2] h1 h3 show ?thesis
    by (simp add: forest_of_mixed)
qed

text \<open>
  C1 as stated fails: two members that name each other as parent have different ids, and
  neither is in the forest.
\<close>

theorem buildTree_cycle_counterexample:
  "distinct (map mid [memberP, memberQ]) \<and> memberP \<notin> set (forest_members (buildTree [memberP, memberQ]))
   \<and> memberQ \<notin> set (forest_members (buildTree [memberP, memberQ]))"
  by (simp add: buildTree_def memberP_def memberQ_def)

text \<open>
  The hypothesis on the ids is needed: with a member whose id is the empty string, a member
  whose \<open>parentId\<close> is the empty string is both a root candidate and a child, and is
  placed twice.
\<close>

lemma empty_id_places_twice:
  "distinct (map mid [memberE, memberR])
   \<and> forest_members (buildTree [memberE, memberR]) = [memberE, memberR, memberR]"
  by (simp add: buildTree_def memberE_def memberR_def buildNode.simps)

section \<open>The roots\<close>

text \<open>
  C2 as stated fails: \<open>X\<close> has a \<open>parentId\<close> that no member has as id, and \<open>X\<close> is
  not among the roots.
\<close>

theorem buildTree_dangling_counterexample:
  "parentId orphan = Str ''ghost'' \<and> ''ghost'' \<notin> mid ` set [memberA, orphan]
   \<and> orphan \<notin> set (map member (buildTree [memberA, orphan]))"
  by (simp add: buildTree_def memberA_def orphan_def buildNode.simps)

lemma children_buildNode:
  "children (fst (buildNode ms P m)) =
     fst (buildChildren ms P (filter (\<lambda>c. parentId c = Str (mid m) \<and> mid c \<notin> P) ms))"
  by (simp add: buildNode.simps split: prod.splits)

lemma tree_members_children: "tree_members t = member t # forest_members (children t)"
  by (cases t) simp

lemma placed_has_parent:
  "\<forall>x\<in>set (forest_members (children (fst (buildNode ms P m)))).
      \<exists>q\<in>insert m (set ms). parentId x = Str (mid q)"
  "\<forall>x\<in>set (forest_members (fst (buildChildren ms P cs))).
      x \<in> set cs \<or> (\<exists>q\<in>set ms \<union> set cs. parentId x = Str (mid q))"
proof (induction ms P m and ms P cs rule: buildNode_buildChildren.induct)
  case (1 ms processed m)
  let ?cs = "filter (\<lambda>c. parentId c = Str (mid m) \<and> mid c \<notin> processed) ms"
  show ?case unfolding children_buildNode
  proof
    fix x assume "x \<in> set (forest_members (fst (buildChildren ms processed ?cs)))"
    with 1 have "x \<in> set ?cs \<or> (\<exists>q\<in>set ms \<union> set ?cs. parentId x = Str (mid q))" by blast
    then show "\<exists>q\<in>insert m (set ms). parentId x = Str (mid q)"
    proof
      assume "x \<in> set ?cs"
      then have "parentId x = Str (mid m)" by simp
      then show ?thesis by blast
    next
      assume "\<exists>q\<in>set ms \<union> set ?cs. parentId x = Str (mid q)"
      then obtain q where "q \<in> set ms \<union> set ?cs" and q: "parentId x = Str (mid q)" by blast
      then have "q \<in> set ms" by auto
      with q show ?thesis by blast
    qed
  qed
next
  case (2 ms processed)
  then show ?case by simp
next
  case (3 ms processed child rest)
  obtain n P1 where e1: "buildNode ms (insert (mid child) processed) child = (n, P1)"
    by (cases "buildNode ms (insert (mid child) processed) child")
  obtain ns P2 where e2: "buildChildren ms P1 rest = (ns, P2)"
    by (cases "buildChildren ms P1 rest")
  have res: "buildChildren ms processed (child # rest) = (n # ns, P2)"
    by (simp add: e1 e2)
  have mn: "member n = child" using member_buildNode[of ms "insert (mid child) processed" child]
    by (simp add: e1)
  from 3(1) have a: "\<forall>x\<in>set (forest_members (children n)).
      \<exists>q\<in>insert child (set ms). parentId x = Str (mid q)" by (simp add: e1)
  from 3(2)[OF e1[symmetric]] have b: "\<forall>x\<in>set (forest_members ns).
      x \<in> set rest \<or> (\<exists>q\<in>set ms \<union> set rest. parentId x = Str (mid q))" by (simp add: e2)
  show ?case unfolding res
  proof
    fix x assume "x \<in> set (forest_members (fst (n # ns, P2)))"
    then consider "x = child" | "x \<in> set (forest_members (children n))" | "x \<in> set (forest_members ns)"
      by (auto simp: tree_members_children mn)
    then show "x \<in> set (child # rest)
        \<or> (\<exists>q\<in>set ms \<union> set (child # rest). parentId x = Str (mid q))"
    proof cases
      case 1
      then show ?thesis by simp
    next
      case 2
      with a obtain q where "q \<in> insert child (set ms)" and q: "parentId x = Str (mid q)" by blast
      then have "q \<in> set ms \<union> set (child # rest)" by auto
      with q show ?thesis by blast
    next
      case 3
      with b have "x \<in> set rest \<or> (\<exists>q\<in>set ms \<union> set rest. parentId x = Str (mid q))" by blast
      then show ?thesis
      proof
        assume "x \<in> set rest"
        then show ?thesis by simp
      next
        assume "\<exists>q\<in>set ms \<union> set rest. parentId x = Str (mid q)"
        then obtain q where "q \<in> set ms \<union> set rest" and q: "parentId x = Str (mid q)" by blast
        then have "q \<in> set ms \<union> set (child # rest)" by auto
        with q show ?thesis by blast
      qed
    qed
  qed
qed

text \<open>
  C2 (as amended). The roots of the forest are the members whose \<open>parentId\<close> is missing,
  \<open>null\<close> or empty, in the order of the collection. A member whose \<open>parentId\<close> is a
  non-empty string that is the id of no member is not a root, and is nowhere in the forest.
\<close>

theorem roots_are_parentless:
  "map member (buildTree ms) = filter (\<lambda>m. \<not> truthy (parentId m)) ms
   \<and> (truthy (parentId m) \<and> (\<forall>q\<in>set ms. parentId m \<noteq> Str (mid q))
        \<longrightarrow> m \<notin> set (forest_members (buildTree ms)))"
proof -
  let ?rs = "filter (\<lambda>m. \<not> truthy (parentId m)) ms"
  have r: "map member (buildTree ms) = ?rs" by (simp add: buildTree_eq members_of_children)
  have "m \<notin> set (forest_members (buildTree ms))"
    if t: "truthy (parentId m)" and n: "\<forall>q\<in>set ms. parentId m \<noteq> Str (mid q)"
  proof
    assume "m \<in> set (forest_members (buildTree ms))"
    with placed_has_parent(2)[of ms "{}" ?rs]
    have "m \<in> set ?rs \<or> (\<exists>q\<in>set ms \<union> set ?rs. parentId m = Str (mid q))"
      unfolding buildTree_eq by blast
    then show False
    proof
      assume "m \<in> set ?rs"
      with t show False by simp
    next
      assume "\<exists>q\<in>set ms \<union> set ?rs. parentId m = Str (mid q)"
      then obtain q where "q \<in> set ms \<union> set ?rs" and q: "parentId m = Str (mid q)" by blast
      then have "q \<in> set ms" by auto
      with n q show False by blast
    qed
  qed
  with r show ?thesis by blast
qed

theorem roots_are_parentless_witness:
  "parentId orphan = Str ''ghost'' \<and> truthy (parentId orphan)
   \<and> ''ghost'' \<notin> mid ` set [memberA, orphan]
   \<and> map member (buildTree [memberA, orphan]) = [memberA]
   \<and> orphan \<notin> set (forest_members (buildTree [memberA, orphan]))"
  using roots_are_parentless [of "[memberA, orphan]" orphan]
  by (simp add: memberA_def orphan_def)

end
